theory Spec2Isabelle
  imports Main "HOL-Library.Sublist"
begin

section \<open>Python values used by \<open>data_tools.py\<close>\<close>

text \<open>
  A Python \<open>str\<close> is a \<^typ>\<open>string\<close>: the list of its characters, with \<open>''''\<close> the
  empty string. Iterating over a \<open>str\<close> yields its characters as strings of length one.

  A \<open>dict\<close> is the list of its items in insertion order; such a list stands for a dict
  when its keys are distinct (\<open>is_dict\<close>). A lookup that misses raises \<open>KeyError\<close> and
  \<open>pop\<close> on an empty list raises \<open>IndexError\<close>: raised exceptions are the \<open>Inl\<close> results.
  \<open>OverflowError\<close> is what the \<open>datasets\<close> library raises for an integer it cannot store.
\<close>

datatype py_error = KeyError | IndexError | OverflowError

type_synonym ('k, 'v) dict = "('k \<times> 'v) list"

definition is_dict :: "('k, 'v) dict \<Rightarrow> bool" where
  "is_dict d = distinct (map fst d)"

definition dict_keys :: "('k, 'v) dict \<Rightarrow> 'k list" where
  "dict_keys d = map fst d"

definition dict_values :: "('k, 'v) dict \<Rightarrow> 'v list" where
  "dict_values d = map snd d"

text \<open>\<open>d[key]\<close> as an expression.\<close>

definition dict_getitem :: "('k, 'v) dict \<Rightarrow> 'k \<Rightarrow> py_error + 'v" where
  "dict_getitem d key = (case map_of d key of None \<Rightarrow> Inl KeyError | Some v \<Rightarrow> Inr v)"

text \<open>\<open>d[key] = v\<close>: an existing key keeps its place, a new key goes to the end.\<close>

fun dict_setitem :: "('k, 'v) dict \<Rightarrow> 'k \<Rightarrow> 'v \<Rightarrow> ('k, 'v) dict" where
  "dict_setitem [] key v = [(key, v)]"
| "dict_setitem ((key', v') # d) key v =
     (if key' = key then (key, v) # d else (key', v') # dict_setitem d key v)"

text \<open>\<open>xs.pop()\<close>: the last element and the list without it.\<close>

definition list_pop :: "'a list \<Rightarrow> py_error + ('a \<times> 'a list)" where
  "list_pop xs = (if xs = [] then Inl IndexError else Inr (last xs, butlast xs))"

text \<open>\<open>list(txt)\<close> for a \<open>str\<close>: one string of length one per character.\<close>

definition py_list :: "string \<Rightarrow> string list" where
  "py_list txt = map (\<lambda>c. [c]) txt"

text \<open>
  \<open>s.replace(old, new)\<close>: the occurrences of \<open>old\<close> are found from left to right and do
  not overlap. With an empty \<open>old\<close>, \<open>new\<close> is put before every character and at the end.
\<close>

fun replace_scan :: "string \<Rightarrow> string \<Rightarrow> string \<Rightarrow> string" where
  "replace_scan old new [] = []"
| "replace_scan old new (c # cs) =
     (if old \<noteq> [] \<and> prefix old (c # cs)
      then new @ replace_scan old new (drop (length old) (c # cs))
      else c # replace_scan old new cs)"

definition str_replace :: "string \<Rightarrow> string \<Rightarrow> string \<Rightarrow> string" where
  "str_replace s old new =
     (if old = [] then new @ concat (map (\<lambda>c. c # new) s) else replace_scan old new s)"

text \<open>
  \<open>c.isspace()\<close> for the characters a \<^typ>\<open>char\<close> can hold (code points below 256):
  tab to carriage return, the four separators \<open>0x1C\<close> to \<open>0x1F\<close>, space, next line and
  no-break space. \<open>s.strip()\<close> removes such characters at both ends.
\<close>

definition isspace :: "char \<Rightarrow> bool" where
  "isspace c = (c \<in> set [CHR 0x09, CHR 0x0A, CHR 0x0B, CHR 0x0C, CHR 0x0D,
                          CHR 0x1C, CHR 0x1D, CHR 0x1E, CHR 0x1F, CHR 0x20,
                          CHR 0x85, CHR 0xA0])"

definition str_strip :: "string \<Rightarrow> string" where
  "str_strip s = rev (dropWhile isspace (rev (dropWhile isspace s)))"


section \<open>\<open>is_balanced\<close>\<close>

text \<open>The default argument \<open>{")": "(", "]": "[", "}": "{"}\<close>.\<close>

definition default_symbols :: "(string, string) dict" where
  "default_symbols = [('')'', ''(''), ('']'', ''[''), (''}'', ''{'')]"

text \<open>
  One iteration of the \<open>for\<close> loop either goes on with the next character, with the
  stack it leaves, or leaves the function through \<open>return\<close>.
\<close>

datatype flow = Continue "string list" | Return bool

text \<open>
  Lines 104 to 105: \<open>if ch in symbols.values(): stack.append(ch)\<close>. The stack is a Python
  list: \<open>append\<close> adds at the end, so the most recent element is the last one.
\<close>

definition opening_check :: "(string, string) dict \<Rightarrow> string list \<Rightarrow> string \<Rightarrow> string list" where
  "opening_check symbols stack ch =
     (if ch \<in> set (dict_values symbols) then stack @ [ch] else stack)"

text \<open>
  Lines 106 to 111: the second \<open>if\<close> of the loop body (an \<open>if\<close>, not an \<open>elif\<close>).
  \<open>opening_symbol\<close> starts as the empty string and is replaced by the popped element
  when the stack is not empty.
\<close>

definition closing_check :: "(string, string) dict \<Rightarrow> string list \<Rightarrow> string \<Rightarrow> py_error + flow" where
  "closing_check symbols stack ch =
     (if ch \<in> set (dict_keys symbols) then
        (case (if length stack > 0 then list_pop stack else Inr ('''', stack)) of
           Inl e \<Rightarrow> Inl e
         | Inr (opening_symbol, stack') \<Rightarrow>
             (case dict_getitem symbols ch of
                Inl e \<Rightarrow> Inl e
              | Inr v \<Rightarrow> if opening_symbol \<noteq> v then Inr (Return False)
                         else Inr (Continue stack')))
      else Inr (Continue stack))"

definition loop_body :: "(string, string) dict \<Rightarrow> string list \<Rightarrow> string \<Rightarrow> py_error + flow" where
  "loop_body symbols stack ch = closing_check symbols (opening_check symbols stack ch) ch"

text \<open>
  \<open>for ch in char_list\<close>, started with a given stack: \<open>Continue stack\<close> when the loop runs
  to the end of the list, \<open>Return b\<close> when an iteration returns.
\<close>

fun for_loop :: "(string, string) dict \<Rightarrow> string list \<Rightarrow> string list \<Rightarrow> py_error + flow" where
  "for_loop symbols stack [] = Inr (Continue stack)"
| "for_loop symbols stack (ch # char_list) =
     (case loop_body symbols stack ch of
        Inl e \<Rightarrow> Inl e
      | Inr (Return b) \<Rightarrow> Inr (Return b)
      | Inr (Continue stack') \<Rightarrow> for_loop symbols stack' char_list)"

text \<open>The whole function: the loop from the empty stack, then \<open>return len(stack) == 0\<close>.\<close>

definition is_balanced :: "string \<Rightarrow> (string, string) dict \<Rightarrow> py_error + bool" where
  "is_balanced txt symbols =
     (case for_loop symbols [] (py_list txt) of
        Inl e \<Rightarrow> Inl e
      | Inr (Return b) \<Rightarrow> Inr b
      | Inr (Continue stack) \<Rightarrow> Inr (length stack = 0))"


section \<open>\<open>dyck2dataset\<close>\<close>

text \<open>
  The file system and the \<open>parse\<close> and \<open>datasets\<close> libraries are outside the module. A
  file is given by what the module gets from them: the fields \<open>parse\<close> reads from the
  file's base name (the pattern \<open>k{k:d}_m{m:d}_tr{tr}.{subset}\<close>) and the list
  \<open>f.readlines()\<close> returns, each line with its line break. The argument \<open>files\<close> is
  the list of files the loop of line 46 runs over, after a directory or a single path has
  been turned into a list (lines 32 to 40); every name is taken to match the pattern.

  \<open>Dataset.from_dict\<close> is a parameter of the model, \<open>from_dict\<close>: it is given the
  dictionary of columns and returns the dataset the library builds from it, or the error
  the library raises (it raises \<open>OverflowError\<close> for an integer that does not fit its
  64-bit column). What \<open>dyck2dataset\<close> does is stated for every such \<open>from_dict\<close>.
\<close>

datatype py_value = PyInt int | PyStr string

record parse_result =
  field_k :: int
  field_m :: int
  field_tr :: string
  field_subset :: string

text \<open>\<open>parsed[key]\<close>.\<close>

definition parsed_getitem :: "parse_result \<Rightarrow> string \<Rightarrow> py_error + py_value" where
  "parsed_getitem parsed key =
     (if key = ''k'' then Inr (PyInt (field_k parsed))
      else if key = ''m'' then Inr (PyInt (field_m parsed))
      else if key = ''tr'' then Inr (PyStr (field_tr parsed))
      else if key = ''subset'' then Inr (PyStr (field_subset parsed))
      else Inl KeyError)"

record dyck_file =
  parsed_name :: parse_result
  file_lines :: "string list"

type_synonym table = "(string, py_value list) dict"

text \<open>
  Lines 63 to 65, for one line:
  \<open>line.replace("END", "").replace("\n", "").strip()\<close>.
\<close>

definition clean_line :: "string \<Rightarrow> string" where
  "clean_line line = str_strip (str_replace (str_replace line ''END'' '''') [CHR 0x0A] '''')"

text \<open>Lines 56 to 58: every missing column of \<open>current_split\<close> starts as the empty list.\<close>

definition init_columns :: "string list \<Rightarrow> table \<Rightarrow> table" where
  "init_columns keys current_split =
     fold (\<lambda>key split. if key \<notin> set (dict_keys split) then dict_setitem split key [] else split)
       keys current_split"

text \<open>\<open>current_split[key].extend(xs)\<close>.\<close>

definition list_extend :: "table \<Rightarrow> string \<Rightarrow> py_value list \<Rightarrow> py_error + table" where
  "list_extend current_split key xs =
     (case dict_getitem current_split key of
        Inl e \<Rightarrow> Inl e
      | Inr column \<Rightarrow> Inr (dict_setitem current_split key (column @ xs)))"

text \<open>
  Lines 67 to 68: \<open>for key in col_names: current_split[key].extend([parsed[key]] * len(lines))\<close>,
  with \<open>n\<close> for \<open>len(lines)\<close>.
\<close>

fun extend_columns :: "parse_result \<Rightarrow> nat \<Rightarrow> table \<Rightarrow> string list \<Rightarrow> py_error + table" where
  "extend_columns parsed n current_split [] = Inr current_split"
| "extend_columns parsed n current_split (key # keys) =
     (case dict_getitem current_split key of
        Inl e \<Rightarrow> Inl e
      | Inr column \<Rightarrow>
          (case parsed_getitem parsed key of
             Inl e \<Rightarrow> Inl e
           | Inr v \<Rightarrow>
               extend_columns parsed n
                 (dict_setitem current_split key (column @ replicate n v)) keys))"

text \<open>Lines 56 to 68: what one file does to the table \<open>current_split\<close>.\<close>

definition add_file :: "string list \<Rightarrow> dyck_file \<Rightarrow> table \<Rightarrow> py_error + table" where
  "add_file col_names file current_split =
     (let current_split = init_columns (col_names @ [''text'']) current_split;
          lines = map clean_line (file_lines file)
      in case list_extend current_split ''text'' (map PyStr lines) of
           Inl e \<Rightarrow> Inl e
         | Inr current_split \<Rightarrow>
             extend_columns (parsed_name file) (length lines) current_split col_names)"

text \<open>
  The loop over the files when \<open>use_splits\<close> is false: \<open>current_split\<close> is
  \<open>dataset_dict\<close> itself.
\<close>

fun flat_loop :: "string list \<Rightarrow> table \<Rightarrow> dyck_file list \<Rightarrow> py_error + table" where
  "flat_loop col_names dataset_dict [] = Inr dataset_dict"
| "flat_loop col_names dataset_dict (file # files) =
     (case add_file col_names file dataset_dict of
        Inl e \<Rightarrow> Inl e
      | Inr dataset_dict' \<Rightarrow> flat_loop col_names dataset_dict' files)"

text \<open>
  The loop over the files when \<open>use_splits\<close> is true: \<open>current_split\<close> is
  \<open>dataset_dict[subset]\<close>, created empty for a subset met for the first time. The Python
  changes that dictionary in place; here it is stored back.
\<close>

fun splits_loop :: "string list \<Rightarrow> (string, table) dict \<Rightarrow> dyck_file list
    \<Rightarrow> py_error + (string, table) dict" where
  "splits_loop col_names dataset_dict [] = Inr dataset_dict"
| "splits_loop col_names dataset_dict (file # files) =
     (let subset = field_subset (parsed_name file);
          dataset_dict = (if subset \<notin> set (dict_keys dataset_dict)
                          then dict_setitem dataset_dict subset []
                          else dataset_dict)
      in case dict_getitem dataset_dict subset of
           Inl e \<Rightarrow> Inl e
         | Inr current_split \<Rightarrow>
             (case add_file col_names file current_split of
                Inl e \<Rightarrow> Inl e
              | Inr current_split' \<Rightarrow>
                  splits_loop col_names (dict_setitem dataset_dict subset current_split') files))"

text \<open>
  The value returned: what the library built from \<open>dataset_dict\<close> (line 78), or a
  \<open>DatasetDict\<close> of what it built from each split (lines 71 to 76).
\<close>

datatype 'd dataset = Dataset 'd | DatasetDict "(string, 'd) dict"

text \<open>
  Lines 72 to 75, the dictionary comprehension
  \<open>{split: Dataset.from_dict(dataset_dict[split]) for split in dataset_dict.keys()}\<close>:
  the splits are taken in order, and the first error ends the evaluation.
\<close>

fun from_dict_splits :: "(table \<Rightarrow> py_error + 'd) \<Rightarrow> (string, table) dict \<Rightarrow>
    (string, 'd) dict \<Rightarrow> string list \<Rightarrow> py_error + (string, 'd) dict" where
  "from_dict_splits from_dict dataset_dict built [] = Inr built"
| "from_dict_splits from_dict dataset_dict built (split # splits) =
     (case dict_getitem dataset_dict split of
        Inl e \<Rightarrow> Inl e
      | Inr current_split \<Rightarrow>
          (case from_dict current_split of
             Inl e \<Rightarrow> Inl e
           | Inr d \<Rightarrow>
               from_dict_splits from_dict dataset_dict (dict_setitem built split d) splits))"

definition dyck2dataset :: "(table \<Rightarrow> py_error + 'd) \<Rightarrow> dyck_file list \<Rightarrow> bool
    \<Rightarrow> py_error + 'd dataset" where
  "dyck2dataset from_dict files use_splits =
     (let col_names = [''k'', ''m'', ''tr''];
          col_names = (if \<not> use_splits then col_names @ [''subset''] else col_names)
      in if use_splits then
           (case splits_loop col_names [] files of
              Inl e \<Rightarrow> Inl e
            | Inr dataset_dict \<Rightarrow>
                (case from_dict_splits from_dict dataset_dict [] (dict_keys dataset_dict) of
                   Inl e \<Rightarrow> Inl e
                 | Inr built \<Rightarrow> Inr (DatasetDict built)))
         else
           (case flat_loop col_names [] files of
              Inl e \<Rightarrow> Inl e
            | Inr dataset_dict \<Rightarrow>
                (case from_dict dataset_dict of
                   Inl e \<Rightarrow> Inl e
                 | Inr d \<Rightarrow> Inr (Dataset d))))"



section \<open>Notions of the specification\<close>

text \<open>
  The definitions of this section are not translations of the code: they say, in the
  specification's words, what the code is compared with.
\<close>

text \<open>No symbol is both a closing symbol (a key) and an opening symbol (a value).\<close>

definition disjoint_roles :: "(string, string) dict \<Rightarrow> bool" where
  "disjoint_roles symbols = (set (dict_keys symbols) \<inter> set (dict_values symbols) = {})"

text \<open>A character with a role in the mapping.\<close>

definition structural :: "(string, string) dict \<Rightarrow> char \<Rightarrow> bool" where
  "structural symbols c = ([c] \<in> set (dict_keys symbols) \<or> [c] \<in> set (dict_values symbols))"

text \<open>
  The scan as the specification describes it: an opening symbol becomes the most recent
  unmatched opening symbol; otherwise a closing symbol has to match the most recent
  unmatched opening symbol, which it removes, and the scan fails (\<open>None\<close>) when it does
  not or when there is none; any other character is ignored. The unmatched opening
  symbols are kept with the most recent first.
\<close>

fun spec_scan :: "(string, string) dict \<Rightarrow> string list \<Rightarrow> string list \<Rightarrow> string list option" where
  "spec_scan symbols unmatched [] = Some unmatched"
| "spec_scan symbols unmatched (ch # rest) =
     (if ch \<in> set (dict_values symbols) then spec_scan symbols (ch # unmatched) rest
      else if ch \<in> set (dict_keys symbols) then
        (case unmatched of
           [] \<Rightarrow> None
         | opened # unmatched' \<Rightarrow>
             if map_of symbols ch = Some opened then spec_scan symbols unmatched' rest else None)
      else spec_scan symbols unmatched rest)"

text \<open>
  Every closing symbol matches the most recently unmatched opening symbol, and no
  opening symbol is left unmatched at the end.
\<close>

definition spec_balanced :: "string \<Rightarrow> (string, string) dict \<Rightarrow> bool" where
  "spec_balanced txt symbols = (spec_scan symbols [] (py_list txt) = Some [])"

text \<open>
  The balanced words over a mapping, as a grammar: the empty word; a balanced word after
  a character with no role; and an opening symbol, a balanced word, the closing symbol the
  mapping pairs with it, and a balanced word.
\<close>

inductive dyck :: "(string, string) dict \<Rightarrow> string list \<Rightarrow> bool" for symbols where
  empty: "dyck symbols []"
| other: "ch \<notin> set (dict_keys symbols) \<Longrightarrow> ch \<notin> set (dict_values symbols) \<Longrightarrow>
          dyck symbols w \<Longrightarrow> dyck symbols (ch # w)"
| pair: "map_of symbols closing_symbol = Some opening_symbol \<Longrightarrow>
         dyck symbols u \<Longrightarrow> dyck symbols v \<Longrightarrow>
         dyck symbols (opening_symbol # u @ closing_symbol # v)"

text \<open>
  The opening symbols scanned so far whose matching closing symbol has not been seen,
  most recent first. Nothing is unmatched before the scan. A balanced word, in which every
  closing symbol matches an opening symbol of the word under the mapping, changes
  nothing. An opening symbol joins the unmatched ones as the most recent. A closing
  symbol outside a balanced word can only be met when nothing is unmatched, and only if
  the mapping gives it the empty string as its opening symbol: it matches no opening
  symbol and leaves none unmatched.
\<close>

inductive unmatched_openings :: "(string, string) dict \<Rightarrow> string list \<Rightarrow> string list \<Rightarrow> bool"
  for symbols where
  nothing: "unmatched_openings symbols [] []"
| balanced: "unmatched_openings symbols scanned unmatched \<Longrightarrow> dyck symbols w \<Longrightarrow>
             unmatched_openings symbols (scanned @ w) unmatched"
| opened: "unmatched_openings symbols scanned unmatched \<Longrightarrow>
           ch \<in> set (dict_values symbols) \<Longrightarrow>
           unmatched_openings symbols (scanned @ [ch]) (ch # unmatched)"
| unanswered: "unmatched_openings symbols scanned [] \<Longrightarrow> map_of symbols ch = Some '''' \<Longrightarrow>
               unmatched_openings symbols (scanned @ [ch]) []"

text \<open>
  \<open>reverse_and_flip\<close>: each opening symbol of \<open>s\<close> replaced by the closing symbol the
  mapping gives it, in reverse order.
\<close>

definition closing_of :: "(string, string) dict \<Rightarrow> string \<Rightarrow> string" where
  "closing_of symbols ch =
     (case find (\<lambda>(closing_symbol, opening_symbol). opening_symbol = ch) symbols of
        Some (closing_symbol, opening_symbol) \<Rightarrow> closing_symbol
      | None \<Rightarrow> ch)"

definition reverse_and_flip :: "(string, string) dict \<Rightarrow> string \<Rightarrow> string" where
  "reverse_and_flip symbols s = concat (map (closing_of symbols) (rev (py_list s)))"

text \<open>
  A line stripped only of a trailing end marker and of its line terminator, with the
  surrounding whitespace trimmed.
\<close>

definition spec_clean_line :: "string \<Rightarrow> string" where
  "spec_clean_line line =
     (let body = str_strip line
      in str_strip (if suffix ''END'' body then take (length body - 3) body else body))"


text \<open>
  The columns of a table built from a list of files: one value per line of each file, in
  the order of the files and of their lines. \<open>replicated\<close> repeats a field of the file's
  name for each of its lines, \<open>text_column\<close> holds the cleaned lines.
\<close>

definition replicated :: "(parse_result \<Rightarrow> py_value) \<Rightarrow> dyck_file list \<Rightarrow> py_value list" where
  "replicated field files =
     concat (map (\<lambda>file. replicate (length (file_lines file)) (field (parsed_name file))) files)"

definition text_column :: "dyck_file list \<Rightarrow> py_value list" where
  "text_column files =
     concat (map (\<lambda>file. map (\<lambda>line. PyStr (clean_line line)) (file_lines file)) files)"

definition flat_table :: "dyck_file list \<Rightarrow> table" where
  "flat_table files =
     [(''k'', replicated (\<lambda>p. PyInt (field_k p)) files),
      (''m'', replicated (\<lambda>p. PyInt (field_m p)) files),
      (''tr'', replicated (\<lambda>p. PyStr (field_tr p)) files),
      (''subset'', replicated (\<lambda>p. PyStr (field_subset p)) files),
      (''text'', text_column files)]"

definition split_table :: "dyck_file list \<Rightarrow> table" where
  "split_table files =
     [(''k'', replicated (\<lambda>p. PyInt (field_k p)) files),
      (''m'', replicated (\<lambda>p. PyInt (field_m p)) files),
      (''tr'', replicated (\<lambda>p. PyStr (field_tr p)) files),
      (''text'', text_column files)]"

text \<open>The files of one subset, in their order.\<close>

definition files_of :: "string \<Rightarrow> dyck_file list \<Rightarrow> dyck_file list" where
  "files_of name files = filter (\<lambda>file. field_subset (parsed_name file) = name) files"

text \<open>The files grouped by subset, the groups in the order their subsets are first met.\<close>

fun group_files :: "(string, dyck_file list) dict \<Rightarrow> dyck_file list \<Rightarrow> (string, dyck_file list) dict" where
  "group_files groups [] = groups"
| "group_files groups (file # files) =
     group_files
       (case map_of groups (field_subset (parsed_name file)) of
          None \<Rightarrow> groups @ [(field_subset (parsed_name file), [file])]
        | Some grp \<Rightarrow> dict_setitem groups (field_subset (parsed_name file)) (grp @ [file]))
       files"

definition split_tables :: "(string, dyck_file list) dict \<Rightarrow> (string, table) dict" where
  "split_tables groups = map (\<lambda>(name, files). (name, split_table files)) groups"


section \<open>Properties of the loop of \<open>is_balanced\<close>\<close>

lemma py_list_append: "py_list (a @ b) = py_list a @ py_list b"
  by (simp add: py_list_def)

lemma py_list_Cons: "py_list (c # cs) = [c] # py_list cs"
  by (simp add: py_list_def)

lemma py_list_Nil: "py_list [] = []"
  by (simp add: py_list_def)

text \<open>The loop over a concatenation goes on with the second part from the stack the first leaves.\<close>

lemma for_loop_append:
  "for_loop symbols stack (xs @ ys) =
     (case for_loop symbols stack xs of
        Inr (Continue stack') \<Rightarrow> for_loop symbols stack' ys
      | r \<Rightarrow> r)"
  by (induction xs arbitrary: stack) (auto split: sum.splits flow.splits)

lemma key_lookup:
  "ch \<in> set (dict_keys symbols) \<Longrightarrow>
   \<exists>v. dict_getitem symbols ch = Inr v \<and> map_of symbols ch = Some v"
  by (cases "map_of symbols ch") (auto simp: dict_getitem_def dict_keys_def map_of_eq_None_iff)

lemma loop_body_total: "\<exists>f. loop_body symbols stack ch = Inr f"
  unfolding loop_body_def closing_check_def list_pop_def
  using key_lookup[of ch symbols]
  by (auto split: sum.splits prod.splits)

lemma for_loop_total: "\<exists>f. for_loop symbols stack xs = Inr f"
proof (induction xs arbitrary: stack)
  case Nil
  show ?case by simp
next
  case (Cons ch xs)
  obtain f where f: "loop_body symbols stack ch = Inr f"
    using loop_body_total by blast
  show ?case
  proof (cases f)
    case (Continue stack')
    with f Cons[of stack'] show ?thesis by simp
  next
    case (Return b)
    with f show ?thesis by simp
  qed
qed

text \<open>The only \<open>return\<close> inside the loop is \<open>return False\<close>.\<close>

lemma loop_body_Return: "loop_body symbols stack ch = Inr (Return b) \<Longrightarrow> \<not> b"
  by (auto simp: loop_body_def closing_check_def split: if_splits sum.splits prod.splits)

lemma for_loop_Return: "for_loop symbols stack xs = Inr (Return b) \<Longrightarrow> \<not> b"
  by (induction xs arbitrary: stack)
     (auto split: sum.splits flow.splits dest: loop_body_Return)

text \<open>The loop body by the role of the character.\<close>

lemma loop_body_other:
  "ch \<notin> set (dict_keys symbols) \<Longrightarrow> ch \<notin> set (dict_values symbols) \<Longrightarrow>
   loop_body symbols stack ch = Inr (Continue stack)"
  by (simp add: loop_body_def opening_check_def closing_check_def)

lemma loop_body_opening:
  "ch \<in> set (dict_values symbols) \<Longrightarrow> ch \<notin> set (dict_keys symbols) \<Longrightarrow>
   loop_body symbols stack ch = Inr (Continue (stack @ [ch]))"
  by (simp add: loop_body_def opening_check_def closing_check_def)

lemma loop_body_closing_empty:
  "ch \<in> set (dict_keys symbols) \<Longrightarrow> ch \<notin> set (dict_values symbols) \<Longrightarrow>
   loop_body symbols [] ch =
     (if map_of symbols ch = Some '''' then Inr (Continue []) else Inr (Return False))"
  using key_lookup[of ch symbols]
  by (auto simp: loop_body_def opening_check_def closing_check_def)

lemma loop_body_closing_snoc:
  "ch \<in> set (dict_keys symbols) \<Longrightarrow> ch \<notin> set (dict_values symbols) \<Longrightarrow>
   loop_body symbols (stack @ [opened]) ch =
     (if map_of symbols ch = Some opened then Inr (Continue stack) else Inr (Return False))"
  using key_lookup[of ch symbols]
  by (auto simp: loop_body_def opening_check_def closing_check_def list_pop_def)

lemma value_not_empty:
  "'''' \<notin> set (dict_values symbols) \<Longrightarrow> map_of symbols ch \<noteq> Some ''''"
  by (auto simp: dict_values_def dest!: map_of_SomeD) (metis snd_conv image_eqI)

lemma role_cases:
  assumes "disjoint_roles symbols"
  obtains (is_opening) "ch \<in> set (dict_values symbols)" "ch \<notin> set (dict_keys symbols)"
    | (is_closing) "ch \<in> set (dict_keys symbols)" "ch \<notin> set (dict_values symbols)"
    | (is_other) "ch \<notin> set (dict_keys symbols)" "ch \<notin> set (dict_values symbols)"
  using assms by (auto simp: disjoint_roles_def)

text \<open>
  With disjoint roles and no empty opening symbol, the loop and the scan of the
  specification go together; the stack is the list of unmatched opening symbols, reversed.
\<close>

lemma for_loop_spec_scan:
  assumes "disjoint_roles symbols" and "'''' \<notin> set (dict_values symbols)"
  shows "for_loop symbols stack xs =
     Inr (case spec_scan symbols (rev stack) xs of
            None \<Rightarrow> Return False
          | Some unmatched \<Rightarrow> Continue (rev unmatched))"
proof (induction xs arbitrary: stack)
  case Nil
  show ?case by simp
next
  case (Cons ch xs)
  from assms(1) show ?case
  proof (cases rule: role_cases[where ch = ch])
    case is_opening
    then show ?thesis
      using Cons[of "stack @ [ch]"] by (simp add: loop_body_opening)
  next
    case is_closing
    show ?thesis
    proof (cases stack rule: rev_cases)
      case Nil
      then show ?thesis
        using is_closing value_not_empty[OF assms(2), of ch]
        by (simp add: loop_body_closing_empty)
    next
      case (snoc stack' opened)
      then show ?thesis
        using is_closing Cons[of stack'] by (simp add: loop_body_closing_snoc)
    qed
  next
    case is_other
    then show ?thesis
      using Cons[of stack] by (simp add: loop_body_other)
  qed
qed

lemma for_loop_filter:
  "for_loop symbols stack
     (filter (\<lambda>ch. ch \<in> set (dict_keys symbols) \<or> ch \<in> set (dict_values symbols)) xs) =
   for_loop symbols stack xs"
  by (induction xs arbitrary: stack) (auto simp: loop_body_other split: sum.splits flow.splits)

lemma py_list_filter:
  "py_list (filter (structural symbols) s) =
   filter (\<lambda>ch. ch \<in> set (dict_keys symbols) \<or> ch \<in> set (dict_values symbols)) (py_list s)"
  by (induction s) (auto simp: py_list_def structural_def)

lemma for_loop_non_structural:
  "\<forall>ch \<in> set xs. ch \<notin> set (dict_keys symbols) \<and> ch \<notin> set (dict_values symbols) \<Longrightarrow>
   for_loop symbols stack xs = Inr (Continue stack)"
  by (induction xs) (simp_all add: loop_body_other)

text \<open>
  What an iteration that goes on can do to the stack, whatever the mapping; so the stack
  is always a subsequence of the characters scanned, made of opening symbols.
\<close>

lemma loop_body_Continue_cases:
  assumes "loop_body symbols stack ch = Inr (Continue stack')"
  shows "stack' = stack \<or> (stack' = stack @ [ch] \<and> ch \<in> set (dict_values symbols)) \<or>
         stack' = butlast stack"
  using assms
  by (auto simp: loop_body_def opening_check_def closing_check_def list_pop_def
      split: if_splits sum.splits)

lemma for_loop_stack_subseq:
  "for_loop symbols [] xs = Inr (Continue stack) \<Longrightarrow>
   subseq stack xs \<and> set stack \<subseteq> set (dict_values symbols)"
proof (induction xs arbitrary: stack rule: rev_induct)
  case Nil
  then show ?case by simp
next
  case (snoc ch xs)
  from snoc.prems obtain stack0 where
    before: "for_loop symbols [] xs = Inr (Continue stack0)" and
    body: "loop_body symbols stack0 ch = Inr (Continue stack)"
    by (auto simp: for_loop_append split: sum.splits flow.splits)
  from snoc.IH[OF before] have sub: "subseq stack0 xs" and
    vals: "set stack0 \<subseteq> set (dict_values symbols)"
    by simp_all
  have pre: "prefix (butlast stack0) stack0"
    by (rule prefixeq_butlast)
  from loop_body_Continue_cases[OF body] show ?case
  proof (elim disjE conjE)
    assume "stack = stack0"
    then show ?thesis
      using sub vals by (simp add: subseq_rev_drop_many)
  next
    assume "stack = stack0 @ [ch]" and "ch \<in> set (dict_values symbols)"
    then show ?thesis
      using sub vals by (simp add: list_emb_append_mono)
  next
    assume b: "stack = butlast stack0"
    have "subseq (butlast stack0) stack0"
      using pre by (rule prefix_imp_subseq)
    then have "subseq (butlast stack0) xs"
      using sub by (rule subseq_order.trans)
    then have "subseq stack (xs @ [ch])"
      using b by (simp add: subseq_rev_drop_many)
    moreover have "set stack \<subseteq> set (dict_values symbols)"
      using b vals by (auto dest: in_set_butlastD)
    ultimately show ?thesis by simp
  qed
qed

text \<open>The balanced construction over the default mapping, from any stack.\<close>

lemma for_loop_flip:
  assumes "\<forall>c \<in> set s. [c] \<in> set (dict_values default_symbols)"
  shows "for_loop default_symbols stack (py_list (s @ reverse_and_flip default_symbols s)) =
         Inr (Continue stack)"
  using assms
proof (induction s arbitrary: stack)
  case Nil
  show ?case by (simp add: reverse_and_flip_def py_list_def)
next
  case (Cons c s)
  have c: "c = CHR ''('' \<or> c = CHR ''['' \<or> c = CHR ''{''"
    using Cons.prems by (auto simp: default_symbols_def dict_values_def)
  have rf: "reverse_and_flip default_symbols (c # s) =
        reverse_and_flip default_symbols s @ closing_of default_symbols [c]"
    by (simp add: reverse_and_flip_def py_list_def)
  have push: "loop_body default_symbols stack [c] = Inr (Continue (stack @ [[c]]))"
    using c by (auto simp: loop_body_def opening_check_def closing_check_def
        default_symbols_def dict_values_def dict_keys_def)
  have pop: "for_loop default_symbols (stack @ [[c]]) (py_list (closing_of default_symbols [c])) =
        Inr (Continue stack)"
    using c by (auto simp: loop_body_def opening_check_def closing_check_def list_pop_def
        dict_getitem_def closing_of_def py_list_def
        default_symbols_def dict_values_def dict_keys_def)
  have mid: "for_loop default_symbols (stack @ [[c]])
        (py_list (s @ reverse_and_flip default_symbols s)) = Inr (Continue (stack @ [[c]]))"
    using Cons.IH[of "stack @ [[c]]"] Cons.prems by simp
  have "py_list ((c # s) @ reverse_and_flip default_symbols (c # s)) =
        [c] # py_list (s @ reverse_and_flip default_symbols s) @
          py_list (closing_of default_symbols [c])"
    by (simp add: rf py_list_Cons py_list_append)
  then show ?case
    by (simp add: push for_loop_append mid pop)
qed


text \<open>
  The examples of the docstring and the usual small cases, on the default mapping.
\<close>

lemma is_balanced_examples:
  "is_balanced ''({abc}) 123 []'' default_symbols = Inr True"
  "is_balanced ''({abc}) 123 [] (}'' default_symbols = Inr False"
  "is_balanced ''('' default_symbols = Inr False"
  "is_balanced '')'' default_symbols = Inr False"
  "is_balanced ''()[]{}'' default_symbols = Inr True"
  "is_balanced ''([)]'' default_symbols = Inr False"
  by (simp_all add: is_balanced_def py_list_def loop_body_def opening_check_def
      closing_check_def list_pop_def dict_getitem_def default_symbols_def
      dict_keys_def dict_values_def)

section \<open>The scan of the specification and the grammar\<close>

lemma spec_scan_append:
  "spec_scan symbols unmatched (xs @ ys) =
     (case spec_scan symbols unmatched xs of
        None \<Rightarrow> None
      | Some unmatched' \<Rightarrow> spec_scan symbols unmatched' ys)"
  by (induction xs arbitrary: unmatched) (auto split: list.splits)

lemma pair_roles:
  assumes "disjoint_roles symbols" and "map_of symbols c = Some opn"
  shows "opn \<in> set (dict_values symbols)" "opn \<notin> set (dict_keys symbols)"
        "c \<in> set (dict_keys symbols)" "c \<notin> set (dict_values symbols)"
proof -
  from assms(2) have "(c, opn) \<in> set symbols"
    by (rule map_of_SomeD)
  then have v: "opn \<in> set (dict_values symbols)" and k: "c \<in> set (dict_keys symbols)"
    by (force simp: dict_values_def dict_keys_def)+
  from v show "opn \<in> set (dict_values symbols)" .
  from k show "c \<in> set (dict_keys symbols)" .
  from v k assms(1) show "opn \<notin> set (dict_keys symbols)" "c \<notin> set (dict_values symbols)"
    by (auto simp: disjoint_roles_def)
qed

text \<open>A balanced word leaves the unmatched opening symbols as it found them.\<close>

lemma dyck_spec_scan:
  assumes "disjoint_roles symbols"
  shows "dyck symbols w \<Longrightarrow> spec_scan symbols unmatched w = Some unmatched"
proof (induction w arbitrary: unmatched rule: dyck.induct)
  case empty
  show ?case by simp
next
  case (other ch w)
  then show ?case by simp
next
  case (pair c opn u v)
  note roles = pair_roles[OF assms pair.hyps(1)]
  show ?case
    using roles pair.hyps(1) pair.IH
    by (simp add: spec_scan_append)
qed

lemma dyck_append: "dyck symbols a \<Longrightarrow> dyck symbols b \<Longrightarrow> dyck symbols (a @ b)"
proof (induction a rule: dyck.induct)
  case empty
  then show ?case by simp
next
  case (other ch w)
  then show ?case by (simp add: dyck.other)
next
  case (pair c opn u v)
  then have "dyck symbols (opn # u @ c # (v @ b))"
    by (intro dyck.pair) simp_all
  then show ?case by simp
qed

text \<open>With disjoint roles the loop runs through a balanced word and leaves the stack as it was.\<close>

lemma dyck_for_loop:
  assumes "disjoint_roles symbols"
  shows "dyck symbols w \<Longrightarrow> for_loop symbols stack w = Inr (Continue stack)"
proof (induction w arbitrary: stack rule: dyck.induct)
  case empty
  show ?case by simp
next
  case (other ch w)
  then show ?case by (simp add: loop_body_other)
next
  case (pair c opn u v)
  note roles = pair_roles[OF assms pair.hyps(1)]
  have "for_loop symbols stack (opn # u @ c # v) = for_loop symbols (stack @ [opn]) (u @ c # v)"
    using roles by (simp add: loop_body_opening)
  also have "\<dots> = for_loop symbols (stack @ [opn]) (c # v)"
    by (simp add: for_loop_append pair.IH(1))
  also have "\<dots> = for_loop symbols stack v"
    using roles pair.hyps(1) by (simp add: loop_body_closing_snoc)
  finally show ?case
    by (simp add: pair.IH(2))
qed

text \<open>
  The stack of the loop and the unmatched opening symbols of the specification: each
  determines the other.
\<close>

lemma unmatched_openings_for_loop:
  assumes "disjoint_roles symbols"
  shows "unmatched_openings symbols scanned unmatched \<Longrightarrow>
         for_loop symbols [] scanned = Inr (Continue (rev unmatched))"
proof (induction rule: unmatched_openings.induct)
  case nothing
  show ?case by simp
next
  case (balanced scanned unmatched w)
  then show ?case
    by (simp add: for_loop_append dyck_for_loop[OF assms])
next
  case (opened scanned unmatched ch)
  have "ch \<notin> set (dict_keys symbols)"
    using assms opened.hyps(2) by (auto simp: disjoint_roles_def)
  then show ?case
    using opened by (simp add: for_loop_append loop_body_opening)
next
  case (unanswered scanned ch)
  note roles = pair_roles[OF assms unanswered.hyps(2)]
  show ?case
    using unanswered roles by (simp add: for_loop_append loop_body_closing_empty)
qed

text \<open>The most recent unmatched opening symbol is followed by a balanced word.\<close>

lemma unmatched_openings_recent:
  "unmatched_openings symbols scanned unmatched \<Longrightarrow> unmatched = opn # older \<Longrightarrow>
   \<exists>before w. scanned = before @ opn # w \<and> dyck symbols w \<and>
     unmatched_openings symbols before older"
proof (induction arbitrary: opn older rule: unmatched_openings.induct)
  case nothing
  then show ?case by simp
next
  case (balanced scanned unmatched w)
  from balanced.IH[OF balanced.prems] obtain before w0 where
    "scanned = before @ opn # w0" "dyck symbols w0" "unmatched_openings symbols before older"
    by blast
  then have "scanned @ w = before @ opn # (w0 @ w) \<and> dyck symbols (w0 @ w) \<and>
      unmatched_openings symbols before older"
    using balanced.hyps(2) by (simp add: dyck_append)
  then show ?case by blast
next
  case (opened scanned unmatched ch)
  then have "scanned @ [ch] = scanned @ opn # [] \<and> dyck symbols [] \<and>
      unmatched_openings symbols scanned older"
    by (simp add: dyck.empty)
  then show ?case by blast
next
  case (unanswered scanned ch)
  then show ?case by simp
qed

lemma for_loop_unmatched_openings:
  assumes "disjoint_roles symbols"
  shows "for_loop symbols [] scanned = Inr (Continue stack) \<Longrightarrow>
         unmatched_openings symbols scanned (rev stack)"
proof (induction scanned arbitrary: stack rule: rev_induct)
  case Nil
  then show ?case by (simp add: unmatched_openings.nothing)
next
  case (snoc ch xs)
  from snoc.prems obtain stack0 where
    before: "for_loop symbols [] xs = Inr (Continue stack0)" and
    body: "loop_body symbols stack0 ch = Inr (Continue stack)"
    by (auto simp: for_loop_append split: sum.splits flow.splits)
  note IH = snoc.IH[OF before]
  from assms show ?case
  proof (cases rule: role_cases[where ch = ch])
    case is_opening
    then have "stack = stack0 @ [ch]"
      using body by (simp add: loop_body_opening)
    then show ?thesis
      using unmatched_openings.opened[OF IH is_opening(1)] by simp
  next
    case is_closing
    show ?thesis
    proof (cases stack0 rule: rev_cases)
      case Nil
      then have "map_of symbols ch = Some ''''" and "stack = []"
        using body is_closing by (auto simp: loop_body_closing_empty split: if_splits)
      then show ?thesis
        using unmatched_openings.unanswered[of symbols xs ch] IH Nil by simp
    next
      case (snoc older opn)
      then have m: "map_of symbols ch = Some opn" and st: "stack = older"
        using body is_closing by (auto simp: loop_body_closing_snoc split: if_splits)
      from unmatched_openings_recent[OF IH, of opn "rev older"] snoc obtain before w where
        xs: "xs = before @ opn # w" and w: "dyck symbols w" and
        b: "unmatched_openings symbols before (rev older)"
        by auto
      have "dyck symbols (opn # w @ ch # [])"
        using m w by (intro dyck.pair) (simp_all add: dyck.empty)
      then have "unmatched_openings symbols (before @ (opn # w @ [ch])) (rev older)"
        using b by (intro unmatched_openings.balanced) simp_all
      then show ?thesis
        using xs st by simp
    qed
  next
    case is_other
    then have "stack = stack0"
      using body by (simp add: loop_body_other)
    moreover have "dyck symbols [ch]"
      using is_other by (simp add: dyck.other dyck.empty)
    ultimately show ?thesis
      using unmatched_openings.balanced[OF IH, of "[ch]"] by simp
  qed
qed

lemma for_loop_iff_unmatched_openings:
  assumes "disjoint_roles symbols"
  shows "(for_loop symbols [] scanned = Inr (Continue stack)) =
         unmatched_openings symbols scanned (rev stack)"
  using for_loop_unmatched_openings[OF assms]
    unmatched_openings_for_loop[OF assms, of scanned "rev stack"]
  by auto

text \<open>A balanced word put anywhere into a balanced word gives a balanced word.\<close>

lemma dyck_insert:
  assumes "dyck symbols ins"
  shows "dyck symbols w \<Longrightarrow> w = x @ y \<Longrightarrow> dyck symbols (x @ ins @ y)"
proof (induction w arbitrary: x y rule: dyck.induct)
  case empty
  then show ?case using assms by simp
next
  case (other ch w)
  show ?case
  proof (cases x)
    case Nil
    then have "y = ch # w" using other.prems by simp
    then have "dyck symbols y" using other.hyps by (simp add: dyck.other)
    then show ?thesis using Nil assms by (simp add: dyck_append)
  next
    case (Cons x0 x')
    then have "x0 = ch" and "w = x' @ y" using other.prems by simp_all
    then show ?thesis
      using Cons other.hyps(1,2) other.IH[of x' y] by (simp add: dyck.other)
  qed
next
  case (pair c opn u v)
  show ?case
  proof (cases x)
    case Nil
    then have "y = opn # u @ c # v" using pair.prems by simp
    then have "dyck symbols y" using pair.hyps by (simp add: dyck.pair)
    then show ?thesis using Nil assms by (simp add: dyck_append)
  next
    case (Cons x0 x')
    then have x0: "x0 = opn" and eq: "u @ c # v = x' @ y" using pair.prems by simp_all
    from eq consider
      (left) t where "u = x' @ t" "y = t @ c # v"
      | (right) t where "x' = u @ c # t" "v = t @ y"
      by (auto simp: append_eq_append_conv2 append_eq_Cons_conv Cons_eq_append_conv)
    then show ?thesis
    proof cases
      case left
      have "dyck symbols (x' @ ins @ t)"
        using pair.IH(1)[of x' t] left(1) by simp
      then have "dyck symbols (opn # (x' @ ins @ t) @ c # v)"
        using pair.hyps(1,3) by (intro dyck.pair)
      then show ?thesis using Cons x0 left(2) by simp
    next
      case right
      have "dyck symbols (t @ ins @ y)"
        using pair.IH(2)[of t y] right(2) by simp
      then have "dyck symbols (opn # u @ c # (t @ ins @ y))"
        using pair.hyps(1,2) by (intro dyck.pair)
      then show ?thesis using Cons x0 right(1) by simp
    qed
  qed
qed

lemma spec_scan_dyck:
  assumes "disjoint_roles symbols"
  shows "spec_scan symbols unmatched w = Some [] \<Longrightarrow> dyck symbols (rev unmatched @ w)"
proof (induction w arbitrary: unmatched)
  case Nil
  then show ?case by (simp add: dyck.empty)
next
  case (Cons ch w)
  from assms show ?case
  proof (cases rule: role_cases[where ch = ch])
    case is_opening
    then show ?thesis
      using Cons.prems Cons.IH[of "ch # unmatched"] by simp
  next
    case is_closing
    then obtain opn rest where
      st: "unmatched = opn # rest" and m: "map_of symbols ch = Some opn" and
      scan: "spec_scan symbols rest w = Some []"
      using Cons.prems by (auto split: list.splits if_splits)
    have "dyck symbols [opn, ch]"
      using dyck.pair[OF m dyck.empty dyck.empty] by simp
    then have "dyck symbols (rev rest @ [opn, ch] @ w)"
      using dyck_insert[OF _ Cons.IH[OF scan] refl] by blast
    then show ?thesis using st by simp
  next
    case is_other
    then have scan: "spec_scan symbols unmatched w = Some []"
      using Cons.prems by simp
    have "dyck symbols [ch]"
      using is_other by (simp add: dyck.other dyck.empty)
    then have "dyck symbols (rev unmatched @ [ch] @ w)"
      using dyck_insert[OF _ Cons.IH[OF scan] refl] by blast
    then show ?thesis by simp
  qed
qed

text \<open>
  With disjoint roles, the texts the scan of the specification accepts are the balanced
  words of the grammar.
\<close>

lemma spec_balanced_iff_dyck:
  assumes "disjoint_roles symbols"
  shows "spec_balanced s symbols \<longleftrightarrow> dyck symbols (py_list s)"
  using dyck_spec_scan[OF assms, of "py_list s" "[]"] spec_scan_dyck[OF assms, of "[]" "py_list s"]
  by (auto simp: spec_balanced_def)


section \<open>Properties of the string methods\<close>

text \<open>
  \<open>replace\<close> with a non-empty \<open>old\<close>: where no occurrence starts the character is
  copied, where one starts it is replaced and the scan goes on behind it.
\<close>

lemma replace_scan_step:
  "\<not> prefix old (c # cs) \<Longrightarrow> replace_scan old new (c # cs) = c # replace_scan old new cs"
  by simp

lemma replace_scan_here:
  "old \<noteq> [] \<Longrightarrow> replace_scan old new (old @ b) = new @ replace_scan old new b"
  by (cases old) simp_all

lemma prefix_short:
  assumes "prefix p (x @ y)" and "length p \<le> length x"
  shows "prefix p x"
proof -
  from assms(1) obtain z where z: "x @ y = p @ z"
    by (auto simp: prefix_def)
  have "take (length p) (x @ y) = p"
    by (simp add: z)
  then have "take (length p) x = p"
    using assms(2) by simp
  then have "x = p @ drop (length p) x"
    using append_take_drop_id[of "length p" x] by simp
  then show ?thesis
    by (rule prefixI)
qed

lemma not_sublist_tl: "\<not> sublist old (c # s) \<Longrightarrow> \<not> sublist old s"
  by (cases old) (simp_all add: sublist_Cons_right)

text \<open>A string in which \<open>old\<close> does not occur is left as it is.\<close>

lemma replace_scan_absent:
  "\<not> sublist old s \<Longrightarrow> replace_scan old new s = s"
proof (induction s)
  case Nil
  show ?case by simp
next
  case (Cons c s)
  have np: "\<not> prefix old (c # s)"
  proof
    assume "prefix old (c # s)"
    then have "sublist old (c # s)" by (rule prefix_imp_sublist)
    with Cons.prems show False by simp
  qed
  have "\<not> sublist old s"
    using Cons.prems by (rule not_sublist_tl)
  then have "replace_scan old new s = s"
    by (rule Cons.IH)
  then show ?case
    by (simp only: replace_scan_step[OF np])
qed

lemma split_old:
  assumes "old \<noteq> []"
  shows "c # (a @ old @ b) = ((c # a) @ butlast old) @ ([last old] @ b)"
proof -
  have bl: "butlast old @ [last old] = old"
    using assms by simp
  have "((c # a) @ butlast old) @ ([last old] @ b) = c # (a @ (butlast old @ [last old]) @ b)"
    by simp
  also have "\<dots> = c # (a @ old @ b)"
    by (simp only: bl)
  finally show ?thesis by simp
qed

text \<open>
  The leftmost occurrence of \<open>old\<close> (no occurrence starts before it, that is, \<open>old\<close>
  does not occur in what precedes it followed by \<open>old\<close> without its last character) is
  always replaced, and the scan goes on in what follows it.
\<close>

lemma replace_scan_first:
  assumes "old \<noteq> []"
  shows "\<not> sublist old (a @ butlast old) \<Longrightarrow>
         replace_scan old new (a @ old @ b) = a @ new @ replace_scan old new b"
proof (induction a)
  case Nil
  show ?case using assms by (simp add: replace_scan_here)
next
  case (Cons c a)
  have np: "\<not> prefix old (c # (a @ old @ b))"
  proof
    assume "prefix old (c # (a @ old @ b))"
    then have "prefix old (((c # a) @ butlast old) @ ([last old] @ b))"
      by (simp only: split_old[OF assms])
    then have "prefix old ((c # a) @ butlast old)"
      by (rule prefix_short) simp
    then have "sublist old ((c # a) @ butlast old)"
      by (rule prefix_imp_sublist)
    with Cons.prems show False by simp
  qed
  have "\<not> sublist old (c # (a @ butlast old))"
    using Cons.prems by simp
  then have "\<not> sublist old (a @ butlast old)"
    by (rule not_sublist_tl)
  then have "replace_scan old new (a @ old @ b) = a @ new @ replace_scan old new b"
    by (rule Cons.IH)
  then show ?case
    by (simp only: append_Cons replace_scan_step[OF np])
qed

lemma not_sublist_butlast:
  assumes "old \<noteq> []"
  shows "\<not> sublist old (butlast old)"
proof
  assume "sublist old (butlast old)"
  then have "length old \<le> length (butlast old)"
    by (rule sublist_length_le)
  then show False
    using assms by (cases old rule: rev_cases) simp_all
qed

text \<open>A string in which \<open>old\<close> occurs has a leftmost occurrence.\<close>

lemma first_occurrence:
  assumes "old \<noteq> []"
  shows "sublist old line \<Longrightarrow>
         \<exists>a b. line = a @ old @ b \<and> \<not> sublist old (a @ butlast old)"
proof (induction line)
  case Nil
  then show ?case using assms by simp
next
  case (Cons c line)
  show ?case
  proof (cases "prefix old (c # line)")
    case True
    then obtain b where "c # line = [] @ old @ b"
      by (auto simp: prefix_def)
    moreover have "\<not> sublist old ([] @ butlast old)"
      using not_sublist_butlast[OF assms] by simp
    ultimately show ?thesis by blast
  next
    case False
    have "sublist old line"
    proof (cases old)
      case Nil
      then show ?thesis using assms by simp
    next
      case (Cons x xs)
      then show ?thesis
        using Cons.prems False by (auto simp: sublist_Cons_right)
    qed
    from Cons.IH[OF this] obtain a b where
      line: "line = a @ old @ b" and a: "\<not> sublist old (a @ butlast old)"
      by blast
    have np: "\<not> prefix old ((c # a) @ butlast old)"
    proof
      assume "prefix old ((c # a) @ butlast old)"
      then have "prefix old (((c # a) @ butlast old) @ ([last old] @ b))"
        by (rule prefix_prefix)
      then have "prefix old (c # (a @ old @ b))"
        by (simp only: split_old[OF assms])
      with False line show False by simp
    qed
    have "\<not> sublist old ((c # a) @ butlast old)"
    proof (cases old)
      case Nil
      then show ?thesis using assms by simp
    next
      case (Cons x xs)
      then show ?thesis
        using np a by (auto simp: sublist_Cons_right)
    qed
    moreover have "c # line = (c # a) @ old @ b"
      using line by simp
    ultimately show ?thesis by blast
  qed
qed

text \<open>Replacing a single character by the empty string deletes it everywhere.\<close>

lemma replace_scan_char: "replace_scan [x] '''' s = filter (\<lambda>c. c \<noteq> x) s"
  by (induction s) auto

lemma clean_line_unfold:
  "clean_line line =
   str_strip (filter (\<lambda>c. c \<noteq> CHR 0x0A) (str_replace line ''END'' ''''))"
  by (simp add: clean_line_def str_replace_def replace_scan_char)

lemma str_replace_END:
  "str_replace s ''END'' '''' = replace_scan ''END'' '''' s"
  by (simp add: str_replace_def)

section \<open>Properties of the loops of \<open>dyck2dataset\<close>\<close>

lemma replicated_snoc:
  "replicated field (files @ [file]) =
   replicated field files @ replicate (length (file_lines file)) (field (parsed_name file))"
  by (simp add: replicated_def)

lemma text_column_snoc:
  "text_column (files @ [file]) =
   text_column files @ map (\<lambda>line. PyStr (clean_line line)) (file_lines file)"
  by (simp add: text_column_def)



text \<open>One file added to the empty table, and to the table of the files before it.\<close>

lemma add_file_flat_first:
  "add_file [''k'', ''m'', ''tr'', ''subset''] file [] = Inr (flat_table [file])"
  by (simp add: add_file_def init_columns_def list_extend_def dict_getitem_def dict_keys_def
      parsed_getitem_def flat_table_def replicated_def text_column_def comp_def)




lemma add_file_split_first:
  "add_file [''k'', ''m'', ''tr''] file [] = Inr (split_table [file])"
  by (simp add: add_file_def init_columns_def list_extend_def dict_getitem_def dict_keys_def
      parsed_getitem_def split_table_def replicated_def text_column_def comp_def)

lemma add_file_split_next:
  "add_file [''k'', ''m'', ''tr''] file (split_table files) =
   Inr (split_table (files @ [file]))"
  by (simp add: add_file_def init_columns_def list_extend_def dict_getitem_def dict_keys_def
      parsed_getitem_def split_table_def replicated_snoc text_column_snoc comp_def)

text \<open>Dictionary updates on the list of items.\<close>

lemma map_of_dict_setitem: "map_of (dict_setitem d key v) = (map_of d)(key \<mapsto> v)"
  by (induction d) (auto simp: fun_eq_iff)

lemma dict_setitem_new: "key \<notin> set (dict_keys d) \<Longrightarrow> dict_setitem d key v = d @ [(key, v)]"
  by (induction d) (auto simp: dict_keys_def)

lemma dict_setitem_last:
  "key \<notin> set (dict_keys d) \<Longrightarrow> dict_setitem (d @ [(key, v)]) key w = d @ [(key, w)]"
  by (induction d) (auto simp: dict_keys_def)

lemma not_key_iff: "key \<notin> set (dict_keys d) \<longleftrightarrow> map_of d key = None"
  by (simp add: dict_keys_def map_of_eq_None_iff)

lemma dict_keys_split_tables: "dict_keys (split_tables groups) = dict_keys groups"
  by (induction groups) (auto simp: dict_keys_def split_tables_def)

lemma map_of_split_tables:
  "map_of (split_tables groups) name = map_option split_table (map_of groups name)"
  by (induction groups) (auto simp: split_tables_def)

lemma dict_setitem_split_tables:
  "dict_setitem (split_tables groups) name (split_table files) =
   split_tables (dict_setitem groups name files)"
  by (induction groups) (auto simp: split_tables_def)

lemma split_tables_snoc:
  "split_tables groups @ [(name, split_table files)] = split_tables (groups @ [(name, files)])"
  by (simp add: split_tables_def)

text \<open>The loop with \<open>use_splits\<close> keeps one table per group of files.\<close>

lemma splits_loop_split_tables:
  "splits_loop [''k'', ''m'', ''tr''] (split_tables groups) files =
   Inr (split_tables (group_files groups files))"
proof (induction files arbitrary: groups)
  case Nil
  show ?case by simp
next
  case (Cons f fs)
  let ?s = "field_subset (parsed_name f)"
  show ?case
  proof (cases "map_of groups ?s")
    case None
    then have new: "?s \<notin> set (dict_keys (split_tables groups))"
      by (simp add: dict_keys_split_tables not_key_iff)
    have get: "dict_getitem (split_tables groups @ [(?s, [])]) ?s = Inr []"
      using None by (simp add: dict_getitem_def map_of_split_tables map_add_def)
    show ?thesis
      using None new Cons.IH[of "groups @ [(?s, [f])]"]
      by (simp add: dict_setitem_new get add_file_split_first dict_setitem_last split_tables_snoc)
  next
    case (Some grp)
    then have old: "?s \<in> set (dict_keys (split_tables groups))"
      using not_key_iff[of ?s groups] by (simp add: dict_keys_split_tables)
    have get: "dict_getitem (split_tables groups) ?s = Inr (split_table grp)"
      using Some by (simp add: dict_getitem_def map_of_split_tables)
    show ?thesis
      using Some old Cons.IH[of "dict_setitem groups ?s (grp @ [f])"]
      by (simp add: get add_file_split_next dict_setitem_split_tables)
  qed
qed

lemma map_of_group_files:
  "map_of (group_files groups files) name =
     (case map_of groups name of
        None \<Rightarrow> (if files_of name files = [] then None else Some (files_of name files))
      | Some grp \<Rightarrow> Some (grp @ files_of name files))"
proof (induction files arbitrary: groups)
  case Nil
  show ?case by (simp add: files_of_def split: option.splits)
next
  case (Cons f fs)
  show ?case
    by (cases "map_of groups (field_subset (parsed_name f))")
       (auto simp: Cons.IH map_of_dict_setitem files_of_def split: option.splits)
qed

lemma splits_loop_start:
  "\<exists>dataset_dict. splits_loop [''k'', ''m'', ''tr''] [] files = Inr dataset_dict \<and>
     (\<forall>name. map_of dataset_dict name =
        (if files_of name files = [] then None
         else Some (split_table (files_of name files))))"
  using splits_loop_split_tables[of "[]" files]
  by (simp add: split_tables_def[of "[]"] map_of_split_tables map_of_group_files)









section \<open>The claims about \<open>is_balanced\<close>\<close>

text \<open>
  Claim C1, as amended. For every text and every symbol mapping in which no symbol is both
  an opening and a closing symbol and no opening symbol is the empty string,
  \<open>is_balanced\<close> returns true if and only if every closing symbol of the text matches the
  most recently unmatched opening symbol and no opening symbol is left unmatched at the
  end of the scan, which is to say if and only if the text is a balanced word of the
  grammar; the characters that are neither opening nor closing symbols have no effect on
  the result.
\<close>

theorem is_balanced_matches_spec:
  assumes "disjoint_roles symbols" and "'''' \<notin> set (dict_values symbols)"
  shows "is_balanced txt symbols = Inr (spec_balanced txt symbols) \<and>
         spec_balanced txt symbols = dyck symbols (py_list txt) \<and>
         is_balanced (filter (structural symbols) txt) symbols = is_balanced txt symbols"
proof -
  have "is_balanced txt symbols = Inr (spec_balanced txt symbols)"
    unfolding is_balanced_def spec_balanced_def for_loop_spec_scan[OF assms]
    by (simp split: option.splits)
  moreover have "spec_balanced txt symbols = dyck symbols (py_list txt)"
    using spec_balanced_iff_dyck[OF assms(1)] .
  moreover have "is_balanced (filter (structural symbols) txt) symbols = is_balanced txt symbols"
    unfolding is_balanced_def py_list_filter for_loop_filter ..
  ultimately show ?thesis by simp
qed

theorem is_balanced_matches_spec_witness:
  "disjoint_roles default_symbols \<and> '''' \<notin> set (dict_values default_symbols) \<and>
   spec_balanced ''({abc}) 123 []'' default_symbols \<and>
   dyck default_symbols (py_list ''({abc}) 123 []'') \<and>
   is_balanced ''({abc}) 123 []'' default_symbols = Inr True \<and>
   is_balanced (filter (structural default_symbols) ''({abc}) 123 []'') default_symbols = Inr True"
proof -
  have h1: "disjoint_roles default_symbols"
    by (simp add: disjoint_roles_def default_symbols_def dict_keys_def dict_values_def)
  have h2: "'''' \<notin> set (dict_values default_symbols)"
    by (simp add: default_symbols_def dict_values_def)
  have sb: "spec_balanced ''({abc}) 123 []'' default_symbols"
    by (simp add: spec_balanced_def py_list_def default_symbols_def dict_keys_def dict_values_def)
  show ?thesis
    using h1 h2 sb is_balanced_matches_spec[OF h1 h2, of "''({abc}) 123 []''"] by simp
qed

text \<open>
  Claim C1 as stated fails in two ways, each for a mapping whose keys are free of
  duplicates and whose values are free of duplicates. With \<open>{")": ""}\<close> the empty string
  that stands for the missing stack element equals the opening symbol of \<open>")"\<close>: on the
  text \<open>")"\<close> the function returns true although the closing symbol matches no opening
  symbol. With \<open>{"|": "|"}\<close> the character \<open>|\<close> is pushed and popped in the same
  iteration: on the text \<open>"|"\<close> the function returns true although the symbol has no
  partner.
\<close>

theorem is_balanced_degenerate_mapping_counterexample:
  "is_dict [('')'', '''')] \<and> distinct (dict_values [('')'', '''')]) \<and>
   is_balanced '')'' [('')'', '''')] = Inr True \<and>
   \<not> spec_balanced '')'' [('')'', '''')] \<and>
   is_dict [(''|'', ''|'')] \<and> distinct (dict_values [(''|'', ''|'')]) \<and>
   is_balanced ''|'' [(''|'', ''|'')] = Inr True \<and>
   \<not> spec_balanced ''|'' [(''|'', ''|'')]"
  by (simp add: is_dict_def is_balanced_def spec_balanced_def py_list_def
      loop_body_def opening_check_def closing_check_def list_pop_def dict_getitem_def
      dict_keys_def dict_values_def)

text \<open>
  Claim C2. For every symbol mapping whose opening and closing symbols are disjoint, at
  every point the scan of \<open>is_balanced\<close> reaches, the stack holds exactly the opening
  symbols scanned so far whose matching closing symbol has not been seen, the most
  recent at its end: the scan reaches a point with a stack if and only if that stack,
  read from its end, is the list of unmatched opening symbols of the characters scanned.
  Each iteration that goes on keeps this; the stack is made of opening symbols, is a
  subsequence of the characters scanned, and is what the loop goes on with.
\<close>

theorem stack_invariant:
  assumes "disjoint_roles symbols"
  shows "(for_loop symbols [] (py_list scanned) = Inr (Continue stack)) =
           unmatched_openings symbols (py_list scanned) (rev stack) \<and>
         (unmatched_openings symbols (py_list scanned) (rev stack) \<and>
          loop_body symbols stack [c] = Inr (Continue stack') \<longrightarrow>
            unmatched_openings symbols (py_list (scanned @ [c])) (rev stack')) \<and>
         (for_loop symbols [] (py_list scanned) = Inr (Continue stack) \<longrightarrow>
            set stack \<subseteq> set (dict_values symbols) \<and>
            subseq stack (py_list scanned) \<and>
            for_loop symbols [] (py_list (scanned @ rest)) =
              for_loop symbols stack (py_list rest))"
proof -
  have iff: "(for_loop symbols [] (py_list s) = Inr (Continue st)) =
      unmatched_openings symbols (py_list s) (rev st)" for s st
    by (rule for_loop_iff_unmatched_openings[OF assms])
  have step: "unmatched_openings symbols (py_list (scanned @ [c])) (rev stack')"
    if "unmatched_openings symbols (py_list scanned) (rev stack)"
      and "loop_body symbols stack [c] = Inr (Continue stack')"
  proof -
    have "for_loop symbols [] (py_list scanned) = Inr (Continue stack)"
      using that(1) by (simp only: iff)
    then have "for_loop symbols [] (py_list (scanned @ [c])) = Inr (Continue stack')"
      using that(2) by (simp add: py_list_append py_list_Cons py_list_Nil for_loop_append)
    then show ?thesis
      by (simp only: iff)
  qed
  have reached: "set stack \<subseteq> set (dict_values symbols) \<and>
      subseq stack (py_list scanned) \<and>
      for_loop symbols [] (py_list (scanned @ rest)) = for_loop symbols stack (py_list rest)"
    if r: "for_loop symbols [] (py_list scanned) = Inr (Continue stack)"
    using for_loop_stack_subseq[OF r] r by (simp add: py_list_append for_loop_append)
  from iff step reached show ?thesis
    by blast
qed

theorem stack_invariant_witness:
  "disjoint_roles default_symbols \<and>
   for_loop default_symbols [] (py_list ''([]{'') = Inr (Continue [''('', ''{'']) \<and>
   unmatched_openings default_symbols (py_list ''([]{'') [''{'', ''(''] \<and>
   for_loop default_symbols [] (py_list ''(]'') = Inr (Return False) \<and>
   \<not> unmatched_openings default_symbols (py_list ''(]'') []"
proof -
  have h1: "disjoint_roles default_symbols"
    by (simp add: disjoint_roles_def default_symbols_def dict_keys_def dict_values_def)
  have h2: "for_loop default_symbols [] (py_list ''([]{'') = Inr (Continue [''('', ''{''])"
    by (simp add: py_list_def loop_body_def opening_check_def closing_check_def list_pop_def
        dict_getitem_def default_symbols_def dict_keys_def dict_values_def)
  have h3: "for_loop default_symbols [] (py_list ''(]'') = Inr (Return False)"
    by (simp add: py_list_def loop_body_def opening_check_def closing_check_def list_pop_def
        dict_getitem_def default_symbols_def dict_keys_def dict_values_def)
  have "unmatched_openings default_symbols (py_list ''([]{'') (rev [''('', ''{''])"
    using stack_invariant[OF h1, of "''([]{''" "[''('', ''{'']"] h2 by blast
  moreover have "\<not> unmatched_openings default_symbols (py_list ''(]'') (rev [])"
    using stack_invariant[OF h1, of "''(]''" "[]"] h3 by simp
  ultimately show ?thesis
    using h1 h2 h3 by simp
qed

text \<open>
  Claim C3, as amended. When the scan meets a closing symbol (a key of the mapping) with
  an empty stack, the closing test pops the symbol itself if it is also an opening symbol
  (it has just been pushed), and the empty string otherwise. If the opening symbol the
  mapping gives to the closing symbol is not that popped value, \<open>is_balanced\<close> returns
  false whatever follows; this is so for every closing symbol that is not its own
  opening symbol and whose opening symbol is not the empty string. If it is the popped
  value, the scan goes on with the empty stack.
\<close>

theorem closing_on_empty_stack_returns_False:
  assumes "for_loop symbols [] (py_list scanned) = Inr (Continue [])"
      and "[c] \<in> set (dict_keys symbols)"
  shows "(dict_getitem symbols [c] \<noteq>
            Inr (if [c] \<in> set (dict_values symbols) then [c] else '''') \<longrightarrow>
          is_balanced (scanned @ c # rest) symbols = Inr False) \<and>
         (dict_getitem symbols [c] =
            Inr (if [c] \<in> set (dict_values symbols) then [c] else '''') \<longrightarrow>
          for_loop symbols [] (py_list (scanned @ [c])) = Inr (Continue []))"
proof -
  obtain v where v: "dict_getitem symbols [c] = Inr v"
    using key_lookup[OF assms(2)] by blast
  have body: "loop_body symbols [] [c] =
      (if v = (if [c] \<in> set (dict_values symbols) then [c] else '''')
       then Inr (Continue []) else Inr (Return False))"
    using assms(2) v
    by (simp add: loop_body_def opening_check_def closing_check_def list_pop_def)
  have returns: "is_balanced (scanned @ c # rest) symbols = Inr False"
    if "dict_getitem symbols [c] \<noteq>
          Inr (if [c] \<in> set (dict_values symbols) then [c] else '''')"
  proof -
    have "loop_body symbols [] [c] = Inr (Return False)"
      using body that v by simp
    then show ?thesis
      using assms(1)
      by (simp add: is_balanced_def py_list_append py_list_Cons for_loop_append)
  qed
  have goes_on: "for_loop symbols [] (py_list (scanned @ [c])) = Inr (Continue [])"
    if "dict_getitem symbols [c] =
          Inr (if [c] \<in> set (dict_values symbols) then [c] else '''')"
  proof -
    have "loop_body symbols [] [c] = Inr (Continue [])"
      using body that v by simp
    then show ?thesis
      using assms(1)
      by (simp add: py_list_append py_list_Cons py_list_Nil for_loop_append)
  qed
  from returns goes_on show ?thesis
    by blast
qed

theorem closing_on_empty_stack_returns_False_witness:
  "for_loop [(''('', ''<''), ('')'', ''('')] [] (py_list ''ab'') = Inr (Continue []) \<and>
   ''('' \<in> set (dict_keys [(''('', ''<''), ('')'', ''('')]) \<and>
   ''('' \<in> set (dict_values [(''('', ''<''), ('')'', ''('')]) \<and>
   dict_getitem [(''('', ''<''), ('')'', ''('')] ''('' = Inr ''<'' \<and>
   is_balanced (''ab'' @ CHR ''('' # ''x'') [(''('', ''<''), ('')'', ''('')] = Inr False"
proof -
  let ?symbols = "[(''('', ''<''), ('')'', ''('')]"
  have h1: "for_loop ?symbols [] (py_list ''ab'') = Inr (Continue [])"
    by (simp add: py_list_def loop_body_def opening_check_def closing_check_def
        dict_keys_def dict_values_def)
  have h2: "[CHR ''(''] \<in> set (dict_keys ?symbols)"
    by (simp add: dict_keys_def)
  have v: "[CHR ''(''] \<in> set (dict_values ?symbols)"
    by (simp add: dict_values_def)
  have g: "dict_getitem ?symbols [CHR ''(''] = Inr ''<''"
    by (simp add: dict_getitem_def)
  have h3: "dict_getitem ?symbols [CHR ''(''] \<noteq>
      Inr (if [CHR ''(''] \<in> set (dict_values ?symbols) then [CHR ''(''] else '''')"
    using v g by simp
  have "is_balanced (''ab'' @ CHR ''('' # ''x'') ?symbols = Inr False"
    using closing_on_empty_stack_returns_False[OF h1 h2, of "''x''"] h3 by blast
  then show ?thesis
    using h1 h2 v g by simp
qed

text \<open>
  Claim C3 as stated fails in two ways. When the opening symbol of the closing symbol is
  the empty string, as in \<open>{")": ""}\<close>, the scan of \<open>"a)b"\<close> meets \<open>")"\<close> on an empty
  stack and goes on, and the function returns true. When the closing symbol is its own
  opening symbol, as in \<open>{"|": "|"}\<close>, the scan of \<open>"|"\<close> meets it on an empty stack,
  pushes it before the closing test, and the function returns true.
\<close>

theorem closing_on_empty_stack_counterexample:
  "is_dict [('')'', '''')] \<and>
   for_loop [('')'', '''')] [] (py_list ''a'') = Inr (Continue []) \<and>
   '')'' \<in> set (dict_keys [('')'', '''')]) \<and>
   is_balanced (''a'' @ CHR '')'' # ''b'') [('')'', '''')] = Inr True \<and>
   is_dict [(''|'', ''|'')] \<and>
   for_loop [(''|'', ''|'')] [] (py_list '''') = Inr (Continue []) \<and>
   ''|'' \<in> set (dict_keys [(''|'', ''|'')]) \<and>
   is_balanced ('''' @ CHR ''|'' # '''') [(''|'', ''|'')] = Inr True"
  by (simp add: is_dict_def is_balanced_def py_list_def loop_body_def opening_check_def
      closing_check_def list_pop_def dict_getitem_def dict_keys_def dict_values_def)

text \<open>
  Claim C4. For a character that is both an opening symbol (a value of the mapping) and a
  closing symbol (a key), one iteration makes both tests, the opening test first: the
  closing test runs on the stack with the character pushed, so the iteration pops the
  character again and goes on with the stack unchanged when the mapping sends the
  character to itself, and returns false otherwise.
\<close>

theorem dual_role_both_checks:
  assumes "ch \<in> set (dict_values symbols)" and "ch \<in> set (dict_keys symbols)"
  shows "loop_body symbols stack ch = closing_check symbols (stack @ [ch]) ch \<and>
         loop_body symbols stack ch =
           (if dict_getitem symbols ch = Inr ch then Inr (Continue stack)
            else Inr (Return False))"
proof -
  obtain v where v: "dict_getitem symbols ch = Inr v"
    using key_lookup[OF assms(2)] by blast
  have pushed: "opening_check symbols stack ch = stack @ [ch]"
    using assms(1) by (simp add: opening_check_def)
  have "closing_check symbols (stack @ [ch]) ch =
      (if v = ch then Inr (Continue stack) else Inr (Return False))"
    using assms(2) v by (auto simp: closing_check_def list_pop_def)
  then show ?thesis
    using v by (auto simp: loop_body_def pushed)
qed

theorem dual_role_both_checks_witness:
  "''|'' \<in> set (dict_values [(''|'', ''|''), ('')'', ''(''), (''('', ''<'')]) \<and>
   ''|'' \<in> set (dict_keys [(''|'', ''|''), ('')'', ''(''), (''('', ''<'')]) \<and>
   loop_body [(''|'', ''|''), ('')'', ''(''), (''('', ''<'')] [''(''] ''|'' =
     Inr (Continue [''(''])"
proof -
  have h1: "''|'' \<in> set (dict_values [(''|'', ''|''), ('')'', ''(''), (''('', ''<'')])"
    by (simp add: dict_values_def)
  have h2: "''|'' \<in> set (dict_keys [(''|'', ''|''), ('')'', ''(''), (''('', ''<'')])"
    by (simp add: dict_keys_def)
  show ?thesis
    using h1 h2 dual_role_both_checks[OF h1 h2, of "[''('']", THEN conjunct2]
    by (simp add: dict_getitem_def)
qed

text \<open>
  Claim C5. For every string \<open>s\<close> made only of opening symbols of the default mapping,
  \<open>is_balanced\<close> returns true on \<open>s\<close> followed by \<open>reverse_and_flip s\<close>.
\<close>

theorem balanced_construction:
  assumes "\<forall>c \<in> set s. [c] \<in> set (dict_values default_symbols)"
  shows "is_balanced (s @ reverse_and_flip default_symbols s) default_symbols = Inr True"
proof -
  have "for_loop default_symbols [] (py_list (s @ reverse_and_flip default_symbols s)) =
      Inr (Continue [])"
    using for_loop_flip[OF assms] .
  then show ?thesis
    by (simp add: is_balanced_def)
qed

theorem balanced_construction_witness:
  "list_all (\<lambda>c. [c] \<in> set (dict_values default_symbols)) ''([{'' \<and>
   reverse_and_flip default_symbols ''([{'' = ''}])'' \<and>
   is_balanced (''([{'' @ ''}])'') default_symbols = Inr True"
proof -
  have h: "\<forall>c \<in> set ''([{''. [c] \<in> set (dict_values default_symbols)"
    by (simp add: default_symbols_def dict_values_def)
  have rf: "reverse_and_flip default_symbols ''([{'' = ''}])''"
    by (simp add: reverse_and_flip_def closing_of_def py_list_def default_symbols_def)
  show ?thesis
    using h rf balanced_construction[OF h] by (simp add: list_all_iff)
qed

text \<open>
  Claim C6. On a string made only of characters that are neither opening nor closing
  symbols of the mapping \<open>is_balanced\<close> returns true; in particular on the empty string.
\<close>

theorem non_structural_balanced:
  assumes "\<forall>c \<in> set txt. \<not> structural symbols c"
  shows "is_balanced txt symbols = Inr True \<and> is_balanced '''' symbols = Inr True"
proof -
  have "\<forall>ch \<in> set (py_list txt).
      ch \<notin> set (dict_keys symbols) \<and> ch \<notin> set (dict_values symbols)"
    using assms by (auto simp: py_list_def structural_def)
  then have "for_loop symbols [] (py_list txt) = Inr (Continue [])"
    by (rule for_loop_non_structural)
  then show ?thesis
    by (simp add: is_balanced_def py_list_Nil)
qed

theorem non_structural_balanced_witness:
  "list_all (\<lambda>c. \<not> structural default_symbols c) ''abc 123'' \<and>
   is_balanced ''abc 123'' default_symbols = Inr True \<and>
   is_balanced '''' default_symbols = Inr True"
proof -
  have h: "\<forall>c \<in> set ''abc 123''. \<not> structural default_symbols c"
    by (simp add: structural_def default_symbols_def dict_keys_def dict_values_def)
  show ?thesis
    using h non_structural_balanced[OF h] by (simp add: list_all_iff)
qed

text \<open>
  Claim C7. \<open>is_balanced\<close> raises no error for any text and any symbol mapping: the lookup
  \<open>symbols[ch]\<close> and the \<open>pop\<close> never fail, and every input yields a boolean.
\<close>

theorem is_balanced_total:
  "\<exists>b. is_balanced txt symbols = Inr b"
proof -
  obtain f where "for_loop symbols [] (py_list txt) = Inr f"
    using for_loop_total by blast
  then show ?thesis
    by (cases f) (simp_all add: is_balanced_def)
qed

theorem is_balanced_total_witness:
  "\<exists>b. is_balanced ''(]'' [('']'', ''['')] = Inr b"
  by (rule is_balanced_total)

text \<open>
  Claim C10. For every symbol mapping, if \<open>is_balanced\<close> returns true on \<open>a\<close> and on
  \<open>b\<close>, it returns true on \<open>a\<close> followed by \<open>b\<close>.
\<close>

theorem is_balanced_append:
  assumes "is_balanced a symbols = Inr True" and "is_balanced b symbols = Inr True"
  shows "is_balanced (a @ b) symbols = Inr True"
proof -
  have a: "for_loop symbols [] (py_list a) = Inr (Continue [])"
    using assms(1)
    by (auto simp: is_balanced_def split: sum.splits flow.splits dest: for_loop_Return)
  show ?thesis
    using assms(2) by (simp add: is_balanced_def py_list_append for_loop_append a)
qed

theorem is_balanced_append_witness:
  "is_balanced ''({})'' default_symbols = Inr True \<and>
   is_balanced ''[x]'' default_symbols = Inr True \<and>
   is_balanced (''({})'' @ ''[x]'') default_symbols = Inr True"
proof -
  have h1: "is_balanced ''({})'' default_symbols = Inr True"
    by (simp add: is_balanced_def py_list_def loop_body_def opening_check_def closing_check_def
        list_pop_def dict_getitem_def default_symbols_def dict_keys_def dict_values_def)
  have h2: "is_balanced ''[x]'' default_symbols = Inr True"
    by (simp add: is_balanced_def py_list_def loop_body_def opening_check_def closing_check_def
        list_pop_def dict_getitem_def default_symbols_def dict_keys_def dict_values_def)
  show ?thesis
    using h1 h2 is_balanced_append[OF h1 h2] by simp
qed

section \<open>The claims about \<open>dyck2dataset\<close>\<close>




text \<open>
  Claim C9, as amended. When \<open>dyck2dataset\<close> builds the text field, every occurrence of
  the end marker \<open>END\<close> found by a scan from the left is removed, wherever it stands in
  the line: the leftmost occurrence is always deleted and the scan goes on in the same way
  in what follows it, and a part in which \<open>END\<close> does not occur is kept as it is; then
  every newline character is removed and the surrounding whitespace is trimmed. An end
  marker that is not a trailing marker is not preserved. The text of a line is the cell
  handed to the library.
\<close>

theorem clean_line_removes_every_END:
  assumes "\<not> sublist ''END'' (a @ ''EN'')" and "\<not> sublist ''END'' s"
  shows "clean_line line =
           str_strip (filter (\<lambda>c. c \<noteq> CHR 0x0A) (str_replace line ''END'' '''')) \<and>
         str_replace (a @ ''END'' @ b) ''END'' '''' = a @ str_replace b ''END'' '''' \<and>
         str_replace s ''END'' '''' = s \<and>
         (sublist ''END'' line \<longrightarrow>
            (\<exists>before after. line = before @ ''END'' @ after \<and>
               \<not> sublist ''END'' (before @ ''EN''))) \<and>
         dyck2dataset from_dict [\<lparr>parsed_name = p, file_lines = [line]\<rparr>] False =
           (case from_dict
                   [(''k'', [PyInt (field_k p)]),
                    (''m'', [PyInt (field_m p)]),
                    (''tr'', [PyStr (field_tr p)]),
                    (''subset'', [PyStr (field_subset p)]),
                    (''text'', [PyStr (clean_line line)])] of
              Inl e \<Rightarrow> Inl e
            | Inr d \<Rightarrow> Inr (Dataset d))"
proof -
  have unfold: "clean_line line =
      str_strip (filter (\<lambda>c. c \<noteq> CHR 0x0A) (str_replace line ''END'' ''''))"
    by (rule clean_line_unfold)
  have "replace_scan ''END'' '''' (a @ ''END'' @ b) = a @ '''' @ replace_scan ''END'' '''' b"
    using assms(1) by (intro replace_scan_first) simp_all
  then have first: "str_replace (a @ ''END'' @ b) ''END'' '''' = a @ str_replace b ''END'' ''''"
    by (simp only: str_replace_END append_Nil)
  have "replace_scan ''END'' '''' s = s"
    using assms(2) by (rule replace_scan_absent)
  then have absent: "str_replace s ''END'' '''' = s"
    by (simp only: str_replace_END)
  have leftmost: "\<exists>before after. line = before @ ''END'' @ after \<and>
      \<not> sublist ''END'' (before @ ''EN'')" if "sublist ''END'' line"
    using first_occurrence[of "''END''" line] that by simp
  have "flat_table [\<lparr>parsed_name = p, file_lines = [line]\<rparr>] =
      [(''k'', [PyInt (field_k p)]),
       (''m'', [PyInt (field_m p)]),
       (''tr'', [PyStr (field_tr p)]),
       (''subset'', [PyStr (field_subset p)]),
       (''text'', [PyStr (clean_line line)])]"
    by (simp add: flat_table_def replicated_def text_column_def)
  then have cell: "dyck2dataset from_dict [\<lparr>parsed_name = p, file_lines = [line]\<rparr>] False =
      (case from_dict
              [(''k'', [PyInt (field_k p)]),
               (''m'', [PyInt (field_m p)]),
               (''tr'', [PyStr (field_tr p)]),
               (''subset'', [PyStr (field_subset p)]),
               (''text'', [PyStr (clean_line line)])] of
         Inl e \<Rightarrow> Inl e
       | Inr d \<Rightarrow> Inr (Dataset d))"
    by (simp add: dyck2dataset_def add_file_flat_first)
  from unfold first absent leftmost cell show ?thesis
    by blast
qed

theorem clean_line_removes_every_END_witness:
  "\<not> sublist ''END'' (''E ( '' @ ''EN'') \<and>
   \<not> sublist ''END'' ('' ) '' @ [CHR 0x0A]) \<and>
   sublist ''END'' (''E ( END ) '' @ [CHR 0x0A]) \<and>
   str_replace (''E ( '' @ ''END'' @ '' ) '' @ [CHR 0x0A]) ''END'' '''' =
     ''E ( '' @ '' ) '' @ [CHR 0x0A] \<and>
   clean_line (''E ( END ) '' @ [CHR 0x0A]) = ''E (  )''"
proof -
  have h1: "\<not> sublist ''END'' (''E ( '' @ ''EN'')"
    by (simp add: sublist_Cons_right)
  have h2: "\<not> sublist ''END'' ('' ) '' @ [CHR 0x0A])"
    by (simp add: sublist_Cons_right)
  have "sublist ''END'' (''E ( '' @ ''END'' @ '' ) '' @ [CHR 0x0A])"
    by (rule sublist_appendI)
  then have h3: "sublist ''END'' (''E ( END ) '' @ [CHR 0x0A])"
    by simp
  note inst = clean_line_removes_every_END[OF h1 h2,
      of "''E ( END ) '' @ [CHR 0x0A]" "'' ) '' @ [CHR 0x0A]"]
  have first: "str_replace (''E ( '' @ ''END'' @ '' ) '' @ [CHR 0x0A]) ''END'' '''' =
      ''E ( '' @ str_replace ('' ) '' @ [CHR 0x0A]) ''END'' ''''"
    by (rule inst[THEN conjunct2, THEN conjunct1])
  have rest: "str_replace ('' ) '' @ [CHR 0x0A]) ''END'' '''' = '' ) '' @ [CHR 0x0A]"
    by (rule inst[THEN conjunct2, THEN conjunct2, THEN conjunct1])
  have r: "str_replace (''E ( '' @ ''END'' @ '' ) '' @ [CHR 0x0A]) ''END'' '''' =
      ''E ( '' @ '' ) '' @ [CHR 0x0A]"
    by (simp only: first rest)
  have "clean_line (''E ( END ) '' @ [CHR 0x0A]) =
      str_strip (filter (\<lambda>c. c \<noteq> CHR 0x0A)
        (str_replace (''E ( END ) '' @ [CHR 0x0A]) ''END'' ''''))"
    by (rule inst[THEN conjunct1])
  moreover have "''E ( END ) '' @ [CHR 0x0A] = ''E ( '' @ ''END'' @ '' ) '' @ [CHR 0x0A]"
    by simp
  ultimately have c: "clean_line (''E ( END ) '' @ [CHR 0x0A]) = ''E (  )''"
    using r by (simp add: str_strip_def isspace_def)
  from h1 h2 h3 r c show ?thesis
    by (intro conjI)
qed

text \<open>
  Claim C9 as stated fails: the end marker inside the line below is removed with the
  trailing one, where a line stripped only of its trailing marker keeps it.
\<close>

theorem clean_line_inner_END_counterexample:
  "clean_line (''( END ) END'' @ [CHR 0x0A]) = ''(  )'' \<and>
   spec_clean_line (''( END ) END'' @ [CHR 0x0A]) = ''( END )''"
  by (simp add: clean_line_def spec_clean_line_def str_replace_def str_strip_def isspace_def
      suffix_to_prefix)

end
